theory Spec2Isabelle
  imports Complex_Main "HOL-Library.Word"
begin

unbundle bit_operations_syntax

section \<open>The 3D GRAPPA look-up table generator (nrLUT_3D_GRAPPA.py)\<close>

text \<open>
  A shallow embedding of \<^verbatim>\<open>src/functions/trajectories/nrLUT_3D_GRAPPA.py\<close>.
  Python integers are \<open>int\<close>. The boolean array \<^verbatim>\<open>mask\<close> of shape
  \<open>(ky_dim, kz_dim)\<close> is a list of \<open>ky_dim\<close> rows of \<open>kz_dim\<close> booleans. A Python
  exception is the \<open>Inl\<close> side of a sum. The float expressions of the source
  (\<^verbatim>\<open>(ky_dim + 1) / 2\<close>, \<^verbatim>\<open>cy - ACSdim[0] / 2\<close>) only produce multiples of one half;
  binary64 holds these exactly for operands below \<open>2^52\<close>, so they are computed in \<open>rat\<close>.
  Operands beyond that, where the float division rounds or overflows, are outside the model;
  a grid of that size cannot be allocated.
\<close>

subsection \<open>Python and numpy primitives\<close>

datatype error = ValueError | ZeroDivisionError | IndexError

type_synonym ndarray = "bool list list"

text \<open>Python 3 \<^verbatim>\<open>round(x)\<close> on a float: nearest integer, a tie goes to the even neighbour.\<close>

definition py_round :: "rat \<Rightarrow> int" where
  "py_round x =
     (let f = \<lfloor>x\<rfloor>; r = x - of_int f
      in if r < 1 / 2 then f
         else if 1 / 2 < r then f + 1
         else if even f then f else f + 1)"

text \<open>\<^verbatim>\<open>range(a, b)\<close>.\<close>

definition py_range :: "int \<Rightarrow> int \<Rightarrow> int list" where
  "py_range a b = [a..b - 1]"

text \<open>A \<^verbatim>\<open>for\<close> loop over a list whose body may raise: the first exception ends the loop.\<close>

fun for_loop :: "'a list \<Rightarrow> ('a \<Rightarrow> 's \<Rightarrow> error + 's) \<Rightarrow> 's \<Rightarrow> error + 's" where
  "for_loop [] body s = Inr s"
| "for_loop (x # xs) body s =
     (case body x s of Inl e \<Rightarrow> Inl e | Inr s' \<Rightarrow> for_loop xs body s')"

text \<open>
  \<^verbatim>\<open>np.zeros((ky_dim, kz_dim), dtype=bool)\<close>: a negative dimension raises ValueError. A grid
  too large for numpy to allocate is outside the model.
\<close>

definition np_zeros :: "int \<Rightarrow> int \<Rightarrow> error + ndarray" where
  "np_zeros ky_dim kz_dim =
     (if ky_dim < 0 \<or> kz_dim < 0 then Inl ValueError
      else Inr (replicate (nat ky_dim) (replicate (nat kz_dim) False)))"

text \<open>
  One bound of a slice \<^verbatim>\<open>a:b\<close> (step 1) on an axis of length \<open>n\<close>: a negative bound counts
  from the end, and the result is clipped to \<open>[0, n]\<close>.
\<close>

definition slice_bound :: "int \<Rightarrow> nat \<Rightarrow> nat" where
  "slice_bound i n =
     (if i < 0 then (if i + int n < 0 then 0 else nat (i + int n))
      else if int n \<le> i then n else nat i)"

text \<open>\<^verbatim>\<open>mask[a0:b0, a1:b1] = True\<close>.\<close>

definition assign_slice_True :: "ndarray \<Rightarrow> int \<Rightarrow> int \<Rightarrow> int \<Rightarrow> int \<Rightarrow> ndarray" where
  "assign_slice_True msk a0 b0 a1 b1 =
     map (\<lambda>i. let row = msk ! i in
            if slice_bound a0 (length msk) \<le> i \<and> i < slice_bound b0 (length msk)
            then map (\<lambda>j. if slice_bound a1 (length row) \<le> j \<and> j < slice_bound b1 (length row)
                          then True else row ! j) [0..<length row]
            else row)
       [0..<length msk]"

text \<open>
  An integer index on an axis of length \<open>n\<close>: a negative index counts from the end, an index
  outside \<open>[-n, n)\<close> raises IndexError.
\<close>

definition np_index :: "int \<Rightarrow> nat \<Rightarrow> error + nat" where
  "np_index i n =
     (if 0 \<le> i \<and> i < int n then Inr (nat i)
      else if - int n \<le> i \<and> i < 0 then Inr (nat (i + int n))
      else Inl IndexError)"

text \<open>\<^verbatim>\<open>mask[i, j] = True\<close>.\<close>

definition setitem_True :: "ndarray \<Rightarrow> int \<Rightarrow> int \<Rightarrow> error + ndarray" where
  "setitem_True msk i j =
     (case np_index i (length msk) of Inl e \<Rightarrow> Inl e
      | Inr i' \<Rightarrow>
          (case np_index j (length (msk ! i')) of Inl e \<Rightarrow> Inl e
           | Inr j' \<Rightarrow> Inr (msk[i' := (msk ! i')[j' := True]])))"

text \<open>\<^verbatim>\<open>mask[i, j]\<close>.\<close>

definition getitem :: "ndarray \<Rightarrow> int \<Rightarrow> int \<Rightarrow> error + bool" where
  "getitem msk i j =
     (case np_index i (length msk) of Inl e \<Rightarrow> Inl e
      | Inr i' \<Rightarrow>
          (case np_index j (length (msk ! i')) of Inl e \<Rightarrow> Inl e
           | Inr j' \<Rightarrow> Inr (msk ! i' ! j')))"

text \<open>\<^verbatim>\<open>mask.size\<close> and \<^verbatim>\<open>np.count_nonzero(mask)\<close>.\<close>

definition np_size :: "ndarray \<Rightarrow> nat" where
  "np_size msk = sum_list (map length msk)"

definition count_nonzero :: "ndarray \<Rightarrow> nat" where
  "count_nonzero msk = sum_list (map (\<lambda>row. length (filter (\<lambda>b. b) row)) msk)"

subsection \<open>grappa3D_pattern (lines 29 to 58)\<close>

text \<open>
  Lines 33 to 38: the 1-based inclusive bounds of the ACS region on one axis,
  \<^verbatim>\<open>round(c - acs / 2)\<close> and \<^verbatim>\<open>round(c + acs / 2 - 1)\<close> with \<^verbatim>\<open>c = (grid_dim + 1) / 2\<close>.
\<close>

definition acs_bounds :: "int \<Rightarrow> int \<Rightarrow> int \<times> int" where
  "acs_bounds grid_dim acs =
     (let c = (of_int grid_dim + 1) / 2
      in (py_round (c - of_int acs / 2), py_round (c + of_int acs / 2 - 1)))"

text \<open>
  Lines 46 to 49, the body of the inner loop. \<^verbatim>\<open>continue\<close> inside the ACS rectangle; otherwise
  the two residues are tested left to right, \<^verbatim>\<open>and\<close> not evaluating the second one when
  the first test fails; \<^verbatim>\<open>%\<close> by zero raises ZeroDivisionError.
\<close>

definition undersample_cell ::
  "int \<Rightarrow> int \<Rightarrow> int \<Rightarrow> int \<Rightarrow> int \<Rightarrow> int \<Rightarrow> int \<Rightarrow> int \<Rightarrow> ndarray \<Rightarrow> error + ndarray" where
  "undersample_cell y1 y2 z1 z2 Ry Rz kz ky msk =
     (if z1 \<le> kz \<and> kz \<le> z2 \<and> y1 \<le> ky \<and> ky \<le> y2 then Inr msk
      else if Ry = 0 then Inl ZeroDivisionError
      else if (ky - y1) mod Ry = 0 then
        (if Rz = 0 then Inl ZeroDivisionError
         else if (kz - z1) mod Rz = 0 then setitem_True msk (ky - 1) (kz - 1)
         else Inr msk)
      else Inr msk)"

text \<open>Lines 44 to 49: \<^verbatim>\<open>kz\<close> is the outer loop, \<^verbatim>\<open>ky\<close> the inner one.\<close>

definition undersample ::
  "int \<Rightarrow> int \<Rightarrow> int \<Rightarrow> int \<Rightarrow> int \<Rightarrow> int \<Rightarrow> int \<Rightarrow> int \<Rightarrow> ndarray \<Rightarrow> error + ndarray" where
  "undersample ky_dim kz_dim y1 y2 z1 z2 Ry Rz msk =
     for_loop (py_range 1 (kz_dim + 1))
       (\<lambda>kz. for_loop (py_range 1 (ky_dim + 1)) (undersample_cell y1 y2 z1 z2 Ry Rz kz))
       msk"

text \<open>Lines 52 to 56: the row-major scan that appends the centred index of every true cell.\<close>

definition extract_cell ::
  "int \<Rightarrow> int \<Rightarrow> ndarray \<Rightarrow> int \<Rightarrow> int \<Rightarrow> (int \<times> int) list \<Rightarrow> error + (int \<times> int) list" where
  "extract_cell ky_dim kz_dim msk ky kz samples =
     (case getitem msk ky kz of Inl e \<Rightarrow> Inl e
      | Inr b \<Rightarrow>
          Inr (if b then samples @ [(ky - ky_dim div 2, kz - kz_dim div 2)] else samples))"

definition extract_samples :: "int \<Rightarrow> int \<Rightarrow> ndarray \<Rightarrow> error + (int \<times> int) list" where
  "extract_samples ky_dim kz_dim msk =
     for_loop (py_range 0 ky_dim)
       (\<lambda>ky. for_loop (py_range 0 kz_dim) (extract_cell ky_dim kz_dim msk ky))
       []"

definition grappa3D_pattern ::
  "int \<times> int \<Rightarrow> int \<Rightarrow> int \<Rightarrow> int \<times> int \<Rightarrow> error + (ndarray \<times> (int \<times> int) list)" where
  "grappa3D_pattern size_of_kspace Ry Rz ACSdim =
     (let (ky_dim, kz_dim) = size_of_kspace in
      case np_zeros ky_dim kz_dim of Inl e \<Rightarrow> Inl e
      | Inr mask0 \<Rightarrow>
          (let (y1, y2) = acs_bounds ky_dim (fst ACSdim);
               (z1, z2) = acs_bounds kz_dim (snd ACSdim);
               mask1 = assign_slice_True mask0 (y1 - 1) y2 (z1 - 1) z2
           in case undersample ky_dim kz_dim y1 y2 z1 z2 Ry Rz mask1 of Inl e \<Rightarrow> Inl e
              | Inr msk \<Rightarrow>
                  (case extract_samples ky_dim kz_dim msk of Inl e \<Rightarrow> Inl e
                   | Inr samples \<Rightarrow> Inr (msk, samples))))"

subsection \<open>split32to16 (lines 61 to 69)\<close>

text \<open>
  \<^verbatim>\<open>>>\<close> and \<^verbatim>\<open>&\<close> on Python's unbounded integers. No statement of the function raises:
  every path returns.
\<close>

definition split32to16 :: "int \<Rightarrow> error + (int \<times> int)" where
  "split32to16 int32_value =
     (let high16 = drop_bit 16 int32_value AND 0xFFFF;
          low16_unsigned = int32_value AND 0xFFFF;
          low16 = (if low16_unsigned \<ge> 2 ^ 15 then low16_unsigned - 2 ^ 16 else low16_unsigned)
      in Inr (low16, high16))"

subsection \<open>The summary and the export (lines 75 to 108)\<close>

text \<open>
  Line 75, \<^verbatim>\<open>AF = mask.size / np.count_nonzero(mask)\<close>: a division of two Python integers,
  which raises on a zero divisor.
\<close>

definition AF :: "ndarray \<Rightarrow> error + rat" where
  "AF msk =
     (if count_nonzero msk = 0 then Inl ZeroDivisionError
      else Inr (of_nat (np_size msk) / of_nat (count_nonzero msk)))"

text \<open>
  Lines 79 and 80, \<^verbatim>\<open>samples.min(axis=0)\<close> and \<^verbatim>\<open>samples.max(axis=0)\<close>: the reduction of
  an empty array raises ValueError.
\<close>

fun samples_min :: "(int \<times> int) list \<Rightarrow> error + (int \<times> int)" where
  "samples_min [] = Inl ValueError"
| "samples_min (s # ss) = Inr (fold min (map fst ss) (fst s), fold min (map snd ss) (snd s))"

fun samples_max :: "(int \<times> int) list \<Rightarrow> error + (int \<times> int)" where
  "samples_max [] = Inl ValueError"
| "samples_max (s # ss) = Inr (fold max (map fst ss) (fst s), fold max (map snd ss) (snd s))"

text \<open>The decimal text of an integer, as an f-string writes it.\<close>

definition digit_char :: "nat \<Rightarrow> char" where
  "digit_char d = ''0123456789'' ! d"

fun str_nat :: "nat \<Rightarrow> string" where
  "str_nat n = (if n < 10 then [digit_char n] else str_nat (n div 10) @ [digit_char (n mod 10)])"

declare str_nat.simps [simp del]

definition str_int :: "int \<Rightarrow> string" where
  "str_int i = (if i < 0 then CHR ''-'' # str_nat (nat (- i)) else str_nat (nat i))"

definition newline :: char where
  "newline = CHR 0x0A"

text \<open>\<^verbatim>\<open>f.write(s)\<close> on a file opened with mode \<^verbatim>\<open>'w'\<close>: the text is appended to the content.\<close>

definition f_write :: "string \<Rightarrow> string \<Rightarrow> string" where
  "f_write f s = f @ s"

text \<open>
  Lines 102 to 108, with \<^verbatim>\<open>NE = samples.shape[0]\<close> of line 76. The result is the content of
  the file.
\<close>

definition export_LUT :: "(int \<times> int) list \<Rightarrow> error + string" where
  "export_LUT samples =
     (let NE = int (length samples) in
      case split32to16 NE of Inl e \<Rightarrow> Inl e
      | Inr (l16, h16) \<Rightarrow>
          (let f = [];
               f = f_write f (str_int l16 @ [newline]);
               f = f_write f (str_int h16 @ [newline])
           in for_loop samples
                (\<lambda>sample f. Inr (f_write (f_write f (str_int (fst sample) @ [newline]))
                                            (str_int (snd sample) @ [newline])))
                f))"

subsection \<open>The notions of the specification\<close>

text \<open>
  A valid input: positive grid and ACS sizes, the ACS no larger than the grid, factors of at
  least 1, and the four computed ACS bounds inside \<open>[1, grid_dim]\<close>.
\<close>

definition valid_input :: "int \<times> int \<Rightarrow> int \<Rightarrow> int \<Rightarrow> int \<times> int \<Rightarrow> bool" where
  "valid_input grid_size Ry Rz acs_size =
     (let (ky_dim, kz_dim) = grid_size; (a0, a1) = acs_size;
          (y1, y2) = acs_bounds ky_dim a0; (z1, z2) = acs_bounds kz_dim a1
      in 0 < ky_dim \<and> 0 < kz_dim \<and> 0 < a0 \<and> 0 < a1 \<and> a0 \<le> ky_dim \<and> a1 \<le> kz_dim \<and>
         1 \<le> Ry \<and> 1 \<le> Rz \<and>
         1 \<le> y1 \<and> y1 \<le> ky_dim \<and> 1 \<le> y2 \<and> y2 \<le> ky_dim \<and>
         1 \<le> z1 \<and> z1 \<le> kz_dim \<and> 1 \<le> z2 \<and> z2 \<le> kz_dim)"

text \<open>
  The reference characterisation of the mask, in 1-based coordinates: a cell is sampled when it
  lies in the inclusive rectangle \<open>[y1, y2] \<times> [z1, z2]\<close>, or lies outside it with both residues zero.
\<close>

definition reference_cell ::
  "int \<Rightarrow> int \<Rightarrow> int \<Rightarrow> int \<Rightarrow> int \<Rightarrow> int \<Rightarrow> int \<Rightarrow> int \<Rightarrow> bool" where
  "reference_cell y1 y2 z1 z2 Ry Rz ky kz =
     (let inside = (y1 \<le> ky \<and> ky \<le> y2 \<and> z1 \<le> kz \<and> kz \<le> z2)
      in inside \<or> (\<not> inside \<and> (ky - y1) mod Ry = 0 \<and> (kz - z1) mod Rz = 0))"

definition reference_mask ::
  "int \<Rightarrow> int \<Rightarrow> int \<Rightarrow> int \<Rightarrow> int \<Rightarrow> int \<Rightarrow> int \<Rightarrow> int \<Rightarrow> ndarray" where
  "reference_mask ky_dim kz_dim y1 y2 z1 z2 Ry Rz =
     map (\<lambda>ky. map (\<lambda>kz. reference_cell y1 y2 z1 z2 Ry Rz ky kz) [1..kz_dim]) [1..ky_dim]"

text \<open>
  The sample list of the specification: the 0-based indices in row-major order (\<open>ky\<close> outer,
  \<open>kz\<close> inner), those of the true cells kept, each one centred.
\<close>

definition row_major :: "int \<Rightarrow> int \<Rightarrow> (int \<times> int) list" where
  "row_major ky_dim kz_dim =
     concat (map (\<lambda>ky. map (\<lambda>kz. (ky, kz)) [0..kz_dim - 1]) [0..ky_dim - 1])"

definition reference_samples :: "int \<Rightarrow> int \<Rightarrow> ndarray \<Rightarrow> (int \<times> int) list" where
  "reference_samples ky_dim kz_dim msk =
     map (\<lambda>(ky, kz). (ky - ky_dim div 2, kz - kz_dim div 2))
       (filter (\<lambda>(ky, kz). msk ! nat ky ! nat kz) (row_major ky_dim kz_dim))"

text \<open>The newline-terminated lines of a text.\<close>

fun lines_from :: "string \<Rightarrow> string \<Rightarrow> string list" where
  "lines_from cur [] = (if cur = [] then [] else [cur])"
| "lines_from cur (c # cs) =
     (if c = newline then cur # lines_from [] cs else lines_from (cur @ [c]) cs)"

definition lines_of :: "string \<Rightarrow> string list" where
  "lines_of text = lines_from [] text"

text \<open>
  The row-major order on index pairs: \<open>p\<close> is scanned before \<open>q\<close> when its \<open>ky\<close> is smaller,
  or equal with a smaller \<open>kz\<close>.
\<close>

definition scan_before :: "int \<times> int \<Rightarrow> int \<times> int \<Rightarrow> bool" where
  "scan_before p q = (fst p < fst q \<or> (fst p = fst q \<and> snd p < snd q))"

subsection \<open>Auxiliary definitions for the proofs\<close>

text \<open>The shape \<open>(n, k)\<close> of an array.\<close>

definition has_shape :: "nat \<Rightarrow> nat \<Rightarrow> ndarray \<Rightarrow> bool" where
  "has_shape n k msk = (length msk = n \<and> list_all (\<lambda>row. length row = k) msk)"

text \<open>The update that \<open>setitem_True\<close> performs at an index inside the array.\<close>

definition set_True :: "ndarray \<Rightarrow> nat \<Rightarrow> nat \<Rightarrow> ndarray" where
  "set_True msk i j = msk[i := (msk ! i)[j := True]]"

text \<open>
  The test of lines 46 to 48 on one cell, and the effect of one pass of the inner loop body when
  no factor is zero.
\<close>

definition stride_cell ::
  "int \<Rightarrow> int \<Rightarrow> int \<Rightarrow> int \<Rightarrow> int \<Rightarrow> int \<Rightarrow> int \<Rightarrow> int \<Rightarrow> bool" where
  "stride_cell y1 y2 z1 z2 Ry Rz ky kz =
     (\<not> (z1 \<le> kz \<and> kz \<le> z2 \<and> y1 \<le> ky \<and> ky \<le> y2) \<and>
      (ky - y1) mod Ry = 0 \<and> (kz - z1) mod Rz = 0)"

definition mark ::
  "int \<Rightarrow> int \<Rightarrow> int \<Rightarrow> int \<Rightarrow> int \<Rightarrow> int \<Rightarrow> int \<Rightarrow> int \<Rightarrow> ndarray \<Rightarrow> ndarray" where
  "mark y1 y2 z1 z2 Ry Rz kz ky msk =
     (if stride_cell y1 y2 z1 z2 Ry Rz ky kz then set_True msk (nat (ky - 1)) (nat (kz - 1))
      else msk)"

definition centred :: "int \<Rightarrow> int \<Rightarrow> int \<times> int \<Rightarrow> int \<times> int" where
  "centred ky_dim kz_dim p = (fst p - ky_dim div 2, snd p - kz_dim div 2)"

section \<open>Properties\<close>

subsection \<open>Loops, indexing and slices\<close>

text \<open>
  Two rules for a loop with an invariant \<open>I\<close>: when the body never raises, the loop is a
  \<open>fold\<close>; in general every exception of the loop is one of the body.
\<close>

lemma for_loop_fold:
  assumes "I s" and "\<And>x s. x \<in> set xs \<Longrightarrow> I s \<Longrightarrow> body x s = Inr (f x s) \<and> I (f x s)"
  shows "for_loop xs body s = Inr (fold f xs s) \<and> I (fold f xs s)"
  using assms by (induction xs arbitrary: s) auto

lemma for_loop_cases:
  assumes "I s"
    and "\<And>x s. x \<in> set xs \<Longrightarrow> I s \<Longrightarrow> (case body x s of Inl e \<Rightarrow> E e | Inr s' \<Rightarrow> I s')"
  shows "case for_loop xs body s of Inl e \<Rightarrow> E e | Inr s' \<Rightarrow> I s'"
  using assms
proof (induction xs arbitrary: s)
  case Nil
  then show ?case by simp
next
  case (Cons x xs)
  show ?case
  proof (cases "body x s")
    case (Inl e)
    with Cons.prems(2) [of x s] Cons.prems(1) show ?thesis by simp
  next
    case (Inr s')
    with Cons.prems(2) [of x s] Cons.prems(1) have "I s'" by simp
    then have "case for_loop xs body s' of Inl e \<Rightarrow> E e | Inr s' \<Rightarrow> I s'"
      using Cons.prems(2) by (intro Cons.IH) auto
    with Inr show ?thesis by simp
  qed
qed

lemma np_index_in_range: "0 \<le> i \<Longrightarrow> i < int n \<Longrightarrow> np_index i n = Inr (nat i)"
  by (simp add: np_index_def)

lemma has_shape_nth: "has_shape n k m \<Longrightarrow> i < n \<Longrightarrow> length (m ! i) = k"
  by (simp add: has_shape_def list_all_length)

lemma has_shape_length: "has_shape n k m \<Longrightarrow> length m = n"
  by (simp add: has_shape_def)

lemma has_shape_set_True: "has_shape n k m \<Longrightarrow> has_shape n k (set_True m a b)"
  by (cases "a < length m")
    (auto simp add: has_shape_def set_True_def list_all_length nth_list_update)

lemma nth_set_True:
  "has_shape n k m \<Longrightarrow> a < n \<Longrightarrow> b < k \<Longrightarrow> i < n \<Longrightarrow> j < k \<Longrightarrow>
     set_True m a b ! i ! j = (m ! i ! j \<or> (i = a \<and> j = b))"
  by (auto simp add: has_shape_def set_True_def list_all_length nth_list_update)

lemma setitem_True_in_range:
  "has_shape n k m \<Longrightarrow> 0 \<le> i \<Longrightarrow> i < int n \<Longrightarrow> 0 \<le> j \<Longrightarrow> j < int k \<Longrightarrow>
     setitem_True m i j = Inr (set_True m (nat i) (nat j))"
  by (simp add: setitem_True_def set_True_def np_index_in_range has_shape_length has_shape_nth)

text \<open>
  The body of the undersampling loop keeps the shape of the mask. With nonzero factors it is
  the update \<open>mark\<close>; otherwise it may raise ZeroDivisionError and nothing else.
\<close>

lemma undersample_cell_ok:
  assumes "Ry \<noteq> 0" "Rz \<noteq> 0" "has_shape n k m" "1 \<le> ky" "ky \<le> int n" "1 \<le> kz" "kz \<le> int k"
  shows "undersample_cell y1 y2 z1 z2 Ry Rz kz ky m = Inr (mark y1 y2 z1 z2 Ry Rz kz ky m)"
  using assms
  by (auto simp add: undersample_cell_def mark_def stride_cell_def setitem_True_in_range)

lemma undersample_cell_cases:
  assumes "has_shape n k m" "1 \<le> ky" "ky \<le> int n" "1 \<le> kz" "kz \<le> int k"
  shows "case undersample_cell y1 y2 z1 z2 Ry Rz kz ky m of
           Inl e \<Rightarrow> e = ZeroDivisionError \<and> (Ry = 0 \<or> Rz = 0)
         | Inr m' \<Rightarrow> has_shape n k m'"
  using assms
  by (auto simp add: undersample_cell_def setitem_True_in_range has_shape_set_True)

lemma has_shape_mark: "has_shape n k m \<Longrightarrow> has_shape n k (mark y1 y2 z1 z2 Ry Rz kz ky m)"
  by (simp add: mark_def has_shape_set_True)

lemma nth_mark:
  assumes "has_shape n k m" "1 \<le> ky" "ky \<le> int n" "1 \<le> kz" "kz \<le> int k" "i < n" "j < k"
  shows "mark y1 y2 z1 z2 Ry Rz kz ky m ! i ! j =
           (m ! i ! j \<or> (int i + 1 = ky \<and> int j + 1 = kz \<and> stride_cell y1 y2 z1 z2 Ry Rz ky kz))"
proof (cases "stride_cell y1 y2 z1 z2 Ry Rz ky kz")
  case True
  have "nat (ky - 1) < n" "nat (kz - 1) < k" using assms by auto
  then have "set_True m (nat (ky - 1)) (nat (kz - 1)) ! i ! j =
      (m ! i ! j \<or> (i = nat (ky - 1) \<and> j = nat (kz - 1)))"
    using assms by (intro nth_set_True) auto
  moreover have "i = nat (ky - 1) \<longleftrightarrow> int i + 1 = ky" using assms by auto
  moreover have "j = nat (kz - 1) \<longleftrightarrow> int j + 1 = kz" using assms by auto
  ultimately show ?thesis using True by (simp add: mark_def)
next
  case False
  then show ?thesis by (simp add: mark_def)
qed

text \<open>
  The cells after the inner and the outer loop: a cell is true when it was true before, or
  when the loops visited it and the stride test held there.
\<close>

lemma fold_mark_inner:
  assumes "has_shape n k m" "\<forall>ky\<in>set kys. 1 \<le> ky \<and> ky \<le> int n" "1 \<le> kz" "kz \<le> int k"
  shows "has_shape n k (fold (mark y1 y2 z1 z2 Ry Rz kz) kys m) \<and>
         (\<forall>i<n. \<forall>j<k. fold (mark y1 y2 z1 z2 Ry Rz kz) kys m ! i ! j =
            (m ! i ! j \<or> (int i + 1 \<in> set kys \<and> int j + 1 = kz \<and>
                            stride_cell y1 y2 z1 z2 Ry Rz (int i + 1) kz)))"
  using assms
proof (induction kys arbitrary: m)
  case Nil
  then show ?case by simp
next
  case (Cons ky kys)
  let ?m = "mark y1 y2 z1 z2 Ry Rz kz ky m"
  have sh: "has_shape n k ?m" using Cons.prems(1) by (rule has_shape_mark)
  have ky: "1 \<le> ky" "ky \<le> int n" using Cons.prems(2) by auto
  have IH: "has_shape n k (fold (mark y1 y2 z1 z2 Ry Rz kz) kys ?m) \<and>
         (\<forall>i<n. \<forall>j<k. fold (mark y1 y2 z1 z2 Ry Rz kz) kys ?m ! i ! j =
            (?m ! i ! j \<or> (int i + 1 \<in> set kys \<and> int j + 1 = kz \<and>
                            stride_cell y1 y2 z1 z2 Ry Rz (int i + 1) kz)))"
    using sh Cons.prems by (intro Cons.IH) auto
  have step: "\<And>i j. i < n \<Longrightarrow> j < k \<Longrightarrow> ?m ! i ! j =
     (m ! i ! j \<or> (int i + 1 = ky \<and> int j + 1 = kz \<and> stride_cell y1 y2 z1 z2 Ry Rz ky kz))"
    using Cons.prems(1) ky Cons.prems(3,4) by (rule nth_mark)
  show ?case using IH step by auto
qed

lemma fold_mark_outer:
  assumes "has_shape n k m" "\<forall>ky\<in>set kys. 1 \<le> ky \<and> ky \<le> int n"
    "\<forall>kz\<in>set kzs. 1 \<le> kz \<and> kz \<le> int k"
  shows "has_shape n k (fold (\<lambda>kz. fold (mark y1 y2 z1 z2 Ry Rz kz) kys) kzs m) \<and>
         (\<forall>i<n. \<forall>j<k. fold (\<lambda>kz. fold (mark y1 y2 z1 z2 Ry Rz kz) kys) kzs m ! i ! j =
            (m ! i ! j \<or> (int i + 1 \<in> set kys \<and> int j + 1 \<in> set kzs \<and>
                            stride_cell y1 y2 z1 z2 Ry Rz (int i + 1) (int j + 1))))"
  using assms
proof (induction kzs arbitrary: m)
  case Nil
  then show ?case by simp
next
  case (Cons kz kzs)
  let ?m = "fold (mark y1 y2 z1 z2 Ry Rz kz) kys m"
  have kz: "1 \<le> kz" "kz \<le> int k" using Cons.prems(3) by auto
  have inner: "has_shape n k ?m \<and>
         (\<forall>i<n. \<forall>j<k. ?m ! i ! j =
            (m ! i ! j \<or> (int i + 1 \<in> set kys \<and> int j + 1 = kz \<and>
                            stride_cell y1 y2 z1 z2 Ry Rz (int i + 1) kz)))"
    using Cons.prems(1,2) kz by (rule fold_mark_inner)
  have IH: "has_shape n k (fold (\<lambda>kz. fold (mark y1 y2 z1 z2 Ry Rz kz) kys) kzs ?m) \<and>
         (\<forall>i<n. \<forall>j<k. fold (\<lambda>kz. fold (mark y1 y2 z1 z2 Ry Rz kz) kys) kzs ?m ! i ! j =
            (?m ! i ! j \<or> (int i + 1 \<in> set kys \<and> int j + 1 \<in> set kzs \<and>
                            stride_cell y1 y2 z1 z2 Ry Rz (int i + 1) (int j + 1))))"
    using inner Cons.prems by (intro Cons.IH) auto
  show ?case using IH inner by auto
qed

lemma undersample_ok:
  assumes "Ry \<noteq> 0" "Rz \<noteq> 0" "has_shape n k m" "ky_dim = int n" "kz_dim = int k"
  shows "\<exists>m'. undersample ky_dim kz_dim y1 y2 z1 z2 Ry Rz m = Inr m' \<and> has_shape n k m' \<and>
           (\<forall>i<n. \<forall>j<k. m' ! i ! j =
              (m ! i ! j \<or> stride_cell y1 y2 z1 z2 Ry Rz (int i + 1) (int j + 1)))"
proof -
  let ?kys = "py_range 1 (ky_dim + 1)" and ?kzs = "py_range 1 (kz_dim + 1)"
  let ?inner = "\<lambda>kz. fold (mark y1 y2 z1 z2 Ry Rz kz) ?kys"
  have kys: "\<forall>ky\<in>set ?kys. 1 \<le> ky \<and> ky \<le> int n"
    using assms(4) by (simp add: py_range_def)
  have kzs: "\<forall>kz\<in>set ?kzs. 1 \<le> kz \<and> kz \<le> int k"
    using assms(5) by (simp add: py_range_def)
  have inner: "for_loop ?kys (undersample_cell y1 y2 z1 z2 Ry Rz kz) s = Inr (?inner kz s) \<and>
      has_shape n k (?inner kz s)" if "kz \<in> set ?kzs" "has_shape n k s" for kz s
  proof (rule for_loop_fold [where I = "has_shape n k"])
    show "has_shape n k s" by (rule that)
  next
    fix ky s' assume "ky \<in> set ?kys" "has_shape n k s'"
    then show "undersample_cell y1 y2 z1 z2 Ry Rz kz ky s' = Inr (mark y1 y2 z1 z2 Ry Rz kz ky s') \<and>
       has_shape n k (mark y1 y2 z1 z2 Ry Rz kz ky s')"
      using kys kzs that(1) assms(1,2)
      by (simp add: undersample_cell_ok has_shape_mark)
  qed
  have outer: "undersample ky_dim kz_dim y1 y2 z1 z2 Ry Rz m = Inr (fold ?inner ?kzs m) \<and>
      has_shape n k (fold ?inner ?kzs m)"
    unfolding undersample_def
    by (rule for_loop_fold [where I = "has_shape n k"]) (use assms(3) inner in auto)
  have cells: "\<forall>i<n. \<forall>j<k. fold ?inner ?kzs m ! i ! j =
            (m ! i ! j \<or> (int i + 1 \<in> set ?kys \<and> int j + 1 \<in> set ?kzs \<and>
                            stride_cell y1 y2 z1 z2 Ry Rz (int i + 1) (int j + 1)))"
    using fold_mark_outer [OF assms(3) kys kzs] by blast
  have "int i + 1 \<in> set ?kys" if "i < n" for i
    using that assms(4) by (simp add: py_range_def)
  moreover have "int j + 1 \<in> set ?kzs" if "j < k" for j
    using that assms(5) by (simp add: py_range_def)
  ultimately show ?thesis using outer cells by auto
qed

text \<open>The slice assignment: bounds inside the axis are taken as they are.\<close>

lemma slice_bound_lower: "1 \<le> a \<Longrightarrow> a \<le> int n \<Longrightarrow> slice_bound (a - 1) n = nat (a - 1)"
  by (simp add: slice_bound_def)

lemma slice_bound_upper: "0 \<le> b \<Longrightarrow> b \<le> int n \<Longrightarrow> slice_bound b n = nat b"
  by (auto simp add: slice_bound_def)

lemma has_shape_assign_slice_True:
  "has_shape n k m \<Longrightarrow> has_shape n k (assign_slice_True m a0 b0 a1 b1)"
  by (simp add: has_shape_def assign_slice_True_def list_all_length Let_def)

lemma nth_assign_slice_True:
  assumes "has_shape n k m" "i < n" "j < k"
  shows "assign_slice_True m a0 b0 a1 b1 ! i ! j =
     (m ! i ! j \<or> (slice_bound a0 n \<le> i \<and> i < slice_bound b0 n \<and>
                     slice_bound a1 k \<le> j \<and> j < slice_bound b1 k))"
  using assms
  by (auto simp add: has_shape_def assign_slice_True_def list_all_length Let_def)

lemma has_shape_zeros: "has_shape n k (replicate n (replicate k False))"
  by (simp add: has_shape_def list_all_length)

text \<open>The extraction loop appends, row by row, the centred indices of the true cells.\<close>

lemma upto_map_int: "[0..int n - 1] = map int [0..<n]"
proof (induction n)
  case 0
  then show ?case by simp
next
  case (Suc n)
  have "[0..int (Suc n) - 1] = [0..int n - 1] @ [int n]"
    using upto_rec2 [of 0 "int n"] by simp
  then show ?case using Suc by simp
qed

lemma map_nth_upto: "map (\<lambda>i. xs ! nat i) [0..int (length xs) - 1] = xs"
  by (simp add: upto_map_int o_def map_nth)

lemma getitem_in_range:
  "has_shape n k m \<Longrightarrow> 0 \<le> i \<Longrightarrow> i < int n \<Longrightarrow> 0 \<le> j \<Longrightarrow> j < int k \<Longrightarrow>
     getitem m i j = Inr (m ! nat i ! nat j)"
  by (simp add: getitem_def np_index_in_range has_shape_length has_shape_nth)

lemma extract_inner:
  assumes "has_shape n k m" "0 \<le> ky" "ky < int n" "\<forall>kz\<in>set kzs. 0 \<le> kz \<and> kz < int k"
  shows "for_loop kzs (extract_cell ky_dim kz_dim m ky) acc =
     Inr (acc @ map (centred ky_dim kz_dim)
                  (filter (\<lambda>(ky, kz). m ! nat ky ! nat kz) (map (\<lambda>kz. (ky, kz)) kzs)))"
  using assms(4)
proof (induction kzs arbitrary: acc)
  case Nil
  then show ?case by simp
next
  case (Cons kz kzs)
  have "getitem m ky kz = Inr (m ! nat ky ! nat kz)"
    using assms(1,2,3) Cons.prems by (intro getitem_in_range) auto
  then show ?case using Cons by (simp add: extract_cell_def centred_def)
qed

lemma extract_outer:
  assumes "has_shape n k m" "\<forall>ky\<in>set kys. 0 \<le> ky \<and> ky < int n"
    "\<forall>kz\<in>set kzs. 0 \<le> kz \<and> kz < int k"
  shows "for_loop kys (\<lambda>ky. for_loop kzs (extract_cell ky_dim kz_dim m ky)) acc =
     Inr (acc @ map (centred ky_dim kz_dim)
                  (filter (\<lambda>(ky, kz). m ! nat ky ! nat kz)
                     (concat (map (\<lambda>ky. map (\<lambda>kz. (ky, kz)) kzs) kys))))"
  using assms(2)
proof (induction kys arbitrary: acc)
  case Nil
  then show ?case by simp
next
  case (Cons ky kys)
  have "0 \<le> ky" "ky < int n" using Cons.prems by auto
  then have "for_loop kzs (extract_cell ky_dim kz_dim m ky) acc =
     Inr (acc @ map (centred ky_dim kz_dim)
                  (filter (\<lambda>(ky, kz). m ! nat ky ! nat kz) (map (\<lambda>kz. (ky, kz)) kzs)))"
    using assms(1,3) by (intro extract_inner) auto
  then show ?case using Cons by simp
qed

lemma centred_eq: "centred ky_dim kz_dim = (\<lambda>(ky, kz). (ky - ky_dim div 2, kz - kz_dim div 2))"
  by (auto simp add: centred_def fun_eq_iff)

lemma extract_samples_ok:
  assumes "has_shape n k m" "ky_dim = int n" "kz_dim = int k"
  shows "extract_samples ky_dim kz_dim m = Inr (reference_samples ky_dim kz_dim m)"
proof -
  have "\<forall>ky\<in>set (py_range 0 ky_dim). 0 \<le> ky \<and> ky < int n"
    using assms(2) by (simp add: py_range_def)
  moreover have "\<forall>kz\<in>set (py_range 0 kz_dim). 0 \<le> kz \<and> kz < int k"
    using assms(3) by (simp add: py_range_def)
  ultimately show ?thesis
    unfolding extract_samples_def reference_samples_def row_major_def
    using extract_outer [OF assms(1), of "py_range 0 ky_dim" "py_range 0 kz_dim" ky_dim kz_dim "[]"]
    by (simp add: py_range_def centred_eq)
qed

lemma count_row:
  "length (filter (\<lambda>(ky, kz). m ! nat ky ! nat kz) (map (\<lambda>kz. (ky, kz)) [0..int (length (m ! nat ky)) - 1]))
     = length (filter (\<lambda>b. b) (m ! nat ky))"
proof -
  have "length (filter (\<lambda>b. b) (map (\<lambda>kz. (m ! nat ky) ! nat kz) [0..int (length (m ! nat ky)) - 1]))
     = length (filter (\<lambda>b. b) (m ! nat ky))"
    by (simp only: map_nth_upto)
  then show ?thesis by (simp add: filter_map o_def)
qed

lemma length_reference_samples:
  assumes "has_shape n k m"
  shows "length (reference_samples (int n) (int k) m) = count_nonzero m"
proof -
  have rows: "\<And>ky. ky \<in> set [0..int n - 1] \<Longrightarrow>
     length (filter (\<lambda>(ky, kz). m ! nat ky ! nat kz) (map (\<lambda>kz. (ky, kz)) [0..int k - 1]))
       = length (filter (\<lambda>b. b) (m ! nat ky))"
  proof -
    fix ky assume "ky \<in> set [0..int n - 1]"
    then have "nat ky < n" by auto
    then have "length (m ! nat ky) = k" using assms by (simp add: has_shape_nth)
    then show "length (filter (\<lambda>(ky, kz). m ! nat ky ! nat kz) (map (\<lambda>kz. (ky, kz)) [0..int k - 1]))
       = length (filter (\<lambda>b. b) (m ! nat ky))"
      using count_row [of m ky] by simp
  qed
  have "length (reference_samples (int n) (int k) m) =
     sum_list (map (\<lambda>ky. length (filter (\<lambda>(ky, kz). m ! nat ky ! nat kz)
        (map (\<lambda>kz. (ky, kz)) [0..int k - 1]))) [0..int n - 1])"
    by (simp add: reference_samples_def row_major_def filter_concat length_concat o_def)
  also have "\<dots> = sum_list (map (\<lambda>ky. length (filter (\<lambda>b. b) (m ! nat ky))) [0..int n - 1])"
    using rows by (intro arg_cong [where f = sum_list] map_cong) auto
  also have "\<dots> = sum_list (map (\<lambda>row. length (filter (\<lambda>b. b) row)) (map (\<lambda>i. m ! nat i) [0..int (length m) - 1]))"
    using assms by (simp add: o_def has_shape_length)
  also have "\<dots> = count_nonzero m"
    by (simp only: map_nth_upto count_nonzero_def)
  finally show ?thesis .
qed

subsection \<open>The generator as a whole\<close>

text \<open>
  The generator from a grid without negative dimension: it can only raise ZeroDivisionError,
  and a returned mask has the shape of the grid, with the sample list of the specification.
\<close>

lemma undersample_cases:
  assumes "has_shape n k m" "ky_dim = int n" "kz_dim = int k"
  shows "case undersample ky_dim kz_dim y1 y2 z1 z2 Ry Rz m of
           Inl e \<Rightarrow> e = ZeroDivisionError \<and> (Ry = 0 \<or> Rz = 0)
         | Inr m' \<Rightarrow> has_shape n k m'"
  unfolding undersample_def
proof (rule for_loop_cases [where I = "has_shape n k"])
  show "has_shape n k m" by (rule assms)
next
  fix kz s assume kz: "kz \<in> set (py_range 1 (kz_dim + 1))" and s: "has_shape n k s"
  show "case for_loop (py_range 1 (ky_dim + 1)) (undersample_cell y1 y2 z1 z2 Ry Rz kz) s of
           Inl e \<Rightarrow> e = ZeroDivisionError \<and> (Ry = 0 \<or> Rz = 0)
         | Inr m' \<Rightarrow> has_shape n k m'"
  proof (rule for_loop_cases [where I = "has_shape n k"])
    show "has_shape n k s" by (rule s)
  next
    fix ky s' assume "ky \<in> set (py_range 1 (ky_dim + 1))" "has_shape n k s'"
    then show "case undersample_cell y1 y2 z1 z2 Ry Rz kz ky s' of
           Inl e \<Rightarrow> e = ZeroDivisionError \<and> (Ry = 0 \<or> Rz = 0)
         | Inr m' \<Rightarrow> has_shape n k m'"
      using kz assms(2,3) by (intro undersample_cell_cases) (auto simp add: py_range_def)
  qed
qed

lemma grappa3D_pattern_unfold:
  assumes "0 \<le> ky_dim" "0 \<le> kz_dim"
    "acs_bounds ky_dim (fst ACSdim) = (y1, y2)" "acs_bounds kz_dim (snd ACSdim) = (z1, z2)"
  shows "grappa3D_pattern (ky_dim, kz_dim) Ry Rz ACSdim =
     (case undersample ky_dim kz_dim y1 y2 z1 z2 Ry Rz
             (assign_slice_True (replicate (nat ky_dim) (replicate (nat kz_dim) False))
                (y1 - 1) y2 (z1 - 1) z2) of
        Inl e \<Rightarrow> Inl e
      | Inr msk \<Rightarrow>
          (case extract_samples ky_dim kz_dim msk of Inl e \<Rightarrow> Inl e
           | Inr samples \<Rightarrow> Inr (msk, samples)))"
  using assms by (simp add: grappa3D_pattern_def np_zeros_def)

lemma grappa3D_pattern_cases:
  assumes "0 \<le> ky_dim" "0 \<le> kz_dim"
  shows "case grappa3D_pattern (ky_dim, kz_dim) Ry Rz ACSdim of
           Inl e \<Rightarrow> e = ZeroDivisionError \<and> (Ry = 0 \<or> Rz = 0)
         | Inr (msk, samples) \<Rightarrow> has_shape (nat ky_dim) (nat kz_dim) msk \<and>
             samples = reference_samples ky_dim kz_dim msk"
proof -
  obtain y1 y2 z1 z2 where b: "acs_bounds ky_dim (fst ACSdim) = (y1, y2)"
    "acs_bounds kz_dim (snd ACSdim) = (z1, z2)"
    by (metis surj_pair)
  let ?m1 = "assign_slice_True (replicate (nat ky_dim) (replicate (nat kz_dim) False))
                (y1 - 1) y2 (z1 - 1) z2"
  have sh: "has_shape (nat ky_dim) (nat kz_dim) ?m1"
    by (intro has_shape_assign_slice_True has_shape_zeros)
  have u: "case undersample ky_dim kz_dim y1 y2 z1 z2 Ry Rz ?m1 of
           Inl e \<Rightarrow> e = ZeroDivisionError \<and> (Ry = 0 \<or> Rz = 0)
         | Inr m' \<Rightarrow> has_shape (nat ky_dim) (nat kz_dim) m'"
    using sh assms by (intro undersample_cases) auto
  show ?thesis
  proof (cases "undersample ky_dim kz_dim y1 y2 z1 z2 Ry Rz ?m1")
    case (Inl e)
    then show ?thesis using u by (simp add: grappa3D_pattern_unfold [OF assms b])
  next
    case (Inr m')
    then have "has_shape (nat ky_dim) (nat kz_dim) m'" using u by simp
    then have "extract_samples ky_dim kz_dim m' = Inr (reference_samples ky_dim kz_dim m')"
      using assms by (intro extract_samples_ok) auto
    then show ?thesis using Inr \<open>has_shape (nat ky_dim) (nat kz_dim) m'\<close>
      by (simp add: grappa3D_pattern_unfold [OF assms b])
  qed
qed

lemma grappa3D_pattern_run:
  assumes "0 \<le> ky_dim" "0 \<le> kz_dim" "Ry \<noteq> 0" "Rz \<noteq> 0"
    "acs_bounds ky_dim (fst ACSdim) = (y1, y2)" "acs_bounds kz_dim (snd ACSdim) = (z1, z2)"
  shows "\<exists>msk. grappa3D_pattern (ky_dim, kz_dim) Ry Rz ACSdim =
             Inr (msk, reference_samples ky_dim kz_dim msk) \<and>
           has_shape (nat ky_dim) (nat kz_dim) msk \<and>
           (\<forall>i<nat ky_dim. \<forall>j<nat kz_dim. msk ! i ! j =
              ((slice_bound (y1 - 1) (nat ky_dim) \<le> i \<and> i < slice_bound y2 (nat ky_dim) \<and>
                slice_bound (z1 - 1) (nat kz_dim) \<le> j \<and> j < slice_bound z2 (nat kz_dim))
               \<or> stride_cell y1 y2 z1 z2 Ry Rz (int i + 1) (int j + 1)))"
proof -
  let ?z = "replicate (nat ky_dim) (replicate (nat kz_dim) False)"
  let ?m1 = "assign_slice_True ?z (y1 - 1) y2 (z1 - 1) z2"
  have sh: "has_shape (nat ky_dim) (nat kz_dim) ?m1"
    by (intro has_shape_assign_slice_True has_shape_zeros)
  have m1: "\<And>i j. i < nat ky_dim \<Longrightarrow> j < nat kz_dim \<Longrightarrow> ?m1 ! i ! j =
      (slice_bound (y1 - 1) (nat ky_dim) \<le> i \<and> i < slice_bound y2 (nat ky_dim) \<and>
       slice_bound (z1 - 1) (nat kz_dim) \<le> j \<and> j < slice_bound z2 (nat kz_dim))"
    using nth_assign_slice_True [OF has_shape_zeros] by simp
  obtain m' where m': "undersample ky_dim kz_dim y1 y2 z1 z2 Ry Rz ?m1 = Inr m'"
    "has_shape (nat ky_dim) (nat kz_dim) m'"
    "\<forall>i<nat ky_dim. \<forall>j<nat kz_dim. m' ! i ! j =
        (?m1 ! i ! j \<or> stride_cell y1 y2 z1 z2 Ry Rz (int i + 1) (int j + 1))"
    using undersample_ok [OF assms(3,4) sh, of ky_dim kz_dim y1 y2 z1 z2] assms(1,2) by auto
  have "extract_samples ky_dim kz_dim m' = Inr (reference_samples ky_dim kz_dim m')"
    using m'(2) assms by (intro extract_samples_ok) auto
  then have "grappa3D_pattern (ky_dim, kz_dim) Ry Rz ACSdim =
     Inr (m', reference_samples ky_dim kz_dim m')"
    using m'(1) by (simp add: grappa3D_pattern_unfold [OF assms(1,2,5,6)])
  then show ?thesis using m'(2,3) m1 by auto
qed

text \<open>On a valid input the generator returns the reference mask and its samples.\<close>

lemma valid_inputD:
  assumes "valid_input (ky_dim, kz_dim) Ry Rz (a0, a1)"
    "acs_bounds ky_dim a0 = (y1, y2)" "acs_bounds kz_dim a1 = (z1, z2)"
  shows "0 < ky_dim" "0 < kz_dim" "1 \<le> Ry" "1 \<le> Rz" "1 \<le> y1" "y1 \<le> ky_dim" "1 \<le> y2" "y2 \<le> ky_dim"
    "1 \<le> z1" "z1 \<le> kz_dim" "1 \<le> z2" "z2 \<le> kz_dim"
  using assms by (simp_all add: valid_input_def)

lemma grappa3D_pattern_valid:
  assumes "valid_input (ky_dim, kz_dim) Ry Rz (a0, a1)"
    "acs_bounds ky_dim a0 = (y1, y2)" "acs_bounds kz_dim a1 = (z1, z2)"
  shows "grappa3D_pattern (ky_dim, kz_dim) Ry Rz (a0, a1) =
     Inr (reference_mask ky_dim kz_dim y1 y2 z1 z2 Ry Rz,
          reference_samples ky_dim kz_dim (reference_mask ky_dim kz_dim y1 y2 z1 z2 Ry Rz))"
proof -
  note v = valid_inputD [OF assms]
  let ?n = "nat ky_dim" and ?k = "nat kz_dim"
  obtain msk where r: "grappa3D_pattern (ky_dim, kz_dim) Ry Rz (a0, a1) =
             Inr (msk, reference_samples ky_dim kz_dim msk)"
    and sh: "has_shape ?n ?k msk"
    and cells: "\<forall>i<?n. \<forall>j<?k. msk ! i ! j =
              ((slice_bound (y1 - 1) ?n \<le> i \<and> i < slice_bound y2 ?n \<and>
                slice_bound (z1 - 1) ?k \<le> j \<and> j < slice_bound z2 ?k)
               \<or> stride_cell y1 y2 z1 z2 Ry Rz (int i + 1) (int j + 1))"
    using grappa3D_pattern_run [of ky_dim kz_dim Ry Rz "(a0, a1)" y1 y2 z1 z2] assms(2,3) v
    by auto
  have sb: "slice_bound (y1 - 1) ?n = nat (y1 - 1)" "slice_bound y2 ?n = nat y2"
    "slice_bound (z1 - 1) ?k = nat (z1 - 1)" "slice_bound z2 ?k = nat z2"
    using v by (simp_all add: slice_bound_lower slice_bound_upper)
  have cell: "msk ! i ! j = reference_cell y1 y2 z1 z2 Ry Rz (1 + int i) (1 + int j)"
    if "i < ?n" "j < ?k" for i j
  proof -
    have eq: "(nat (y1 - 1) \<le> i \<and> i < nat y2 \<and> nat (z1 - 1) \<le> j \<and> j < nat z2) =
        (y1 \<le> 1 + int i \<and> 1 + int i \<le> y2 \<and> z1 \<le> 1 + int j \<and> 1 + int j \<le> z2)"
      using v by auto
    have "msk ! i ! j =
              ((nat (y1 - 1) \<le> i \<and> i < nat y2 \<and> nat (z1 - 1) \<le> j \<and> j < nat z2)
               \<or> stride_cell y1 y2 z1 z2 Ry Rz (1 + int i) (1 + int j))"
      using cells that by (simp add: sb add.commute)
    then have "msk ! i ! j =
              ((y1 \<le> 1 + int i \<and> 1 + int i \<le> y2 \<and> z1 \<le> 1 + int j \<and> 1 + int j \<le> z2)
               \<or> stride_cell y1 y2 z1 z2 Ry Rz (1 + int i) (1 + int j))"
      unfolding eq .
    then show ?thesis
      unfolding reference_cell_def stride_cell_def Let_def by auto
  qed
  have "msk = reference_mask ky_dim kz_dim y1 y2 z1 z2 Ry Rz"
  proof (rule nth_equalityI)
    show "length msk = length (reference_mask ky_dim kz_dim y1 y2 z1 z2 Ry Rz)"
      using sh by (simp add: reference_mask_def has_shape_length)
  next
    fix i assume "i < length msk"
    then have i: "i < ?n" using sh by (simp add: has_shape_length)
    show "msk ! i = reference_mask ky_dim kz_dim y1 y2 z1 z2 Ry Rz ! i"
    proof (rule nth_equalityI)
      show "length (msk ! i) = length (reference_mask ky_dim kz_dim y1 y2 z1 z2 Ry Rz ! i)"
        using sh i by (simp add: reference_mask_def has_shape_nth)
    next
      fix j assume "j < length (msk ! i)"
      then have j: "j < ?k" using sh i by (simp add: has_shape_nth)
      show "msk ! i ! j = reference_mask ky_dim kz_dim y1 y2 z1 z2 Ry Rz ! i ! j"
        using i j cell [OF i j] by (simp add: reference_mask_def)
    qed
  qed
  then show ?thesis using r by simp
qed

lemma nth_reference_mask:
  assumes "1 \<le> ky" "ky \<le> ky_dim" "1 \<le> kz" "kz \<le> kz_dim"
  shows "reference_mask ky_dim kz_dim y1 y2 z1 z2 Ry Rz ! nat (ky - 1) ! nat (kz - 1) =
           reference_cell y1 y2 z1 z2 Ry Rz ky kz"
  using assms by (simp add: reference_mask_def)

lemma has_shape_reference_mask:
  "has_shape (nat ky_dim) (nat kz_dim) (reference_mask ky_dim kz_dim y1 y2 z1 z2 Ry Rz)"
  by (simp add: has_shape_def reference_mask_def list_all_length)

lemma count_nonzero_pos:
  assumes "i < length m" "j < length (m ! i)" "m ! i ! j"
  shows "0 < count_nonzero m"
proof -
  have "m ! i ! j \<in> set (m ! i)"
    using assms(2) by (rule nth_mem)
  then have "m ! i ! j \<in> set (filter (\<lambda>b. b) (m ! i))"
    using assms(3) by simp
  then have "0 < length (filter (\<lambda>b. b) (m ! i))"
    by (metis length_pos_if_in_set)
  moreover have "length (filter (\<lambda>b. b) (m ! i)) \<in> set (map (\<lambda>row. length (filter (\<lambda>b. b) row)) m)"
    using assms(1) by auto
  then have "length (filter (\<lambda>b. b) (m ! i)) \<le> count_nonzero m"
    unfolding count_nonzero_def by (rule member_le_sum_list) simp
  ultimately show ?thesis by linarith
qed

lemma set_reference_samples:
  assumes "p \<in> set (reference_samples ky_dim kz_dim m)"
  shows "- (ky_dim div 2) \<le> fst p \<and> fst p \<le> ky_dim - 1 - ky_dim div 2 \<and>
         - (kz_dim div 2) \<le> snd p \<and> snd p \<le> kz_dim - 1 - kz_dim div 2"
  using assms by (auto simp add: reference_samples_def row_major_def)

lemma sorted_scan_rows:
  assumes "sorted_wrt (<) kzs"
  shows "sorted_wrt (<) kys \<Longrightarrow>
    sorted_wrt scan_before (concat (map (\<lambda>ky. map (\<lambda>kz. (ky, kz)) kzs) kys))"
proof (induction kys)
  case Nil
  then show ?case by simp
next
  case (Cons ky kys)
  have row: "sorted_wrt scan_before (map (\<lambda>kz. (ky, kz)) kzs)"
    using assms by (simp add: sorted_wrt_map scan_before_def)
  have rest: "sorted_wrt scan_before (concat (map (\<lambda>ky. map (\<lambda>kz. (ky, kz)) kzs) kys))"
    using Cons by simp
  have cross: "\<forall>p\<in>set (map (\<lambda>kz. (ky, kz)) kzs).
     \<forall>q\<in>set (concat (map (\<lambda>ky. map (\<lambda>kz. (ky, kz)) kzs) kys)). scan_before p q"
    using Cons.prems by (auto simp add: scan_before_def)
  show ?case using row rest cross by (simp add: sorted_wrt_append)
qed

lemma sorted_reference_samples: "sorted_wrt scan_before (reference_samples ky_dim kz_dim m)"
proof -
  have "sorted_wrt scan_before (row_major ky_dim kz_dim)"
    unfolding row_major_def by (intro sorted_scan_rows) simp_all
  then have "sorted_wrt (\<lambda>p q. scan_before (centred ky_dim kz_dim p) (centred ky_dim kz_dim q))
      (row_major ky_dim kz_dim)"
    by (rule sorted_wrt_mono_rel [rotated]) (auto simp add: scan_before_def centred_def)
  then have "sorted_wrt (\<lambda>p q. scan_before (centred ky_dim kz_dim p) (centred ky_dim kz_dim q))
      (filter (\<lambda>(ky, kz). m ! nat ky ! nat kz) (row_major ky_dim kz_dim))"
    by (rule sorted_wrt_filter)
  then show ?thesis
    by (simp add: reference_samples_def sorted_wrt_map centred_eq [symmetric])
qed

subsection \<open>The split and the export\<close>

lemma and_0xFFFF: "(x::int) AND 0xFFFF = x mod 65536"
proof -
  have "(0xFFFF::int) = mask 16"
    by (simp add: mask_eq_exp_minus_1)
  then have "x AND 0xFFFF = take_bit 16 x"
    by (simp add: take_bit_eq_mask)
  then show ?thesis
    by (simp add: take_bit_eq_mod)
qed

lemma split32to16_eq:
  "split32to16 v =
     Inr (if v mod 65536 \<ge> 32768 then v mod 65536 - 65536 else v mod 65536,
          (v div 65536) mod 65536)"
  by (simp add: split32to16_def and_0xFFFF drop_bit_eq_div Let_def)

lemma low16_mod: "((v::int) mod 65536 - 65536) mod 65536 = v mod 65536"
  by (metis mod_mod_trivial minus_mod_self2)

text \<open>Decimal text holds no newline, so the lines of the exported text are its values.\<close>

lemma digit_char_not_newline: "d < 10 \<Longrightarrow> digit_char d \<noteq> newline"
proof -
  assume "d < 10"
  then have "digit_char d \<in> set ''0123456789''"
    unfolding digit_char_def by (intro nth_mem) simp
  then show ?thesis by (auto simp add: newline_def)
qed

lemma str_nat_no_newline: "newline \<notin> set (str_nat n)"
proof (induction n rule: str_nat.induct)
  case (1 n)
  show ?case
  proof (cases "n < 10")
    case True
    then show ?thesis
      using digit_char_not_newline [of n] by (simp add: str_nat.simps [of n])
  next
    case False
    have "n mod 10 < 10" by simp
    then have "digit_char (n mod 10) \<noteq> newline" by (rule digit_char_not_newline)
    then show ?thesis
      using False 1 by (auto simp add: str_nat.simps [of n])
  qed
qed

lemma str_int_no_newline: "newline \<notin> set (str_int i)"
  by (simp add: str_int_def str_nat_no_newline newline_def [symmetric])
    (simp add: newline_def)

lemma lines_from_line:
  "newline \<notin> set l \<Longrightarrow> lines_from cur (l @ newline # rest) = (cur @ l) # lines_from [] rest"
  by (induction l arbitrary: cur) auto

lemma lines_of_values:
  "lines_of (concat (map (\<lambda>v. str_int v @ [newline]) vs)) = map str_int vs"
proof (induction vs)
  case Nil
  then show ?case by (simp add: lines_of_def)
next
  case (Cons v vs)
  have "lines_from [] (str_int v @ newline # concat (map (\<lambda>v. str_int v @ [newline]) vs)) =
      ([] @ str_int v) # lines_from [] (concat (map (\<lambda>v. str_int v @ [newline]) vs))"
    using str_int_no_newline by (rule lines_from_line)
  then show ?case using Cons by (simp add: lines_of_def)
qed

lemma export_loop:
  "for_loop samples
     (\<lambda>sample f. Inr (f_write (f_write f (str_int (fst sample) @ [newline]))
                               (str_int (snd sample) @ [newline]))) f =
   Inr (f @ concat (map (\<lambda>v. str_int v @ [newline])
                      (concat (map (\<lambda>(ky, kz). [ky, kz]) samples))))"
  by (induction samples arbitrary: f) (auto simp add: f_write_def)

lemma export_LUT_eq:
  "split32to16 (int (length samples)) = Inr (low16, high16) \<Longrightarrow>
   export_LUT samples =
     Inr (concat (map (\<lambda>v. str_int v @ [newline])
            (low16 # high16 # concat (map (\<lambda>(ky, kz). [ky, kz]) samples))))"
  apply (simp only: export_LUT_def Let_def sum.case prod.case export_loop)
  apply (simp add: f_write_def)
  done

lemma length_pairs: "length (concat (map (\<lambda>(ky, kz). [ky, kz]) samples)) = 2 * length samples"
  by (induction samples) auto

section \<open>The claims\<close>

subsection \<open>The sampling mask\<close>

text \<open>
  C1: for every valid input, with \<open>(y1, y2)\<close> and \<open>(z1, z2)\<close> the computed ACS bounds, the
  generator returns a mask that equals the reference characterisation: the cell at 1-based
  \<open>(ky, kz)\<close> is true exactly when it lies in the inclusive rectangle
  \<open>[y1, y2] \<times> [z1, z2]\<close>, or lies outside it with \<open>(ky - y1) mod Ry = 0\<close> and
  \<open>(kz - z1) mod Rz = 0\<close>; every other cell is false.
\<close>

theorem grappa3D_pattern_mask:
  assumes "valid_input (ky_dim, kz_dim) Ry Rz (a0, a1)"
    and "acs_bounds ky_dim a0 = (y1, y2)" and "acs_bounds kz_dim a1 = (z1, z2)"
  shows "case grappa3D_pattern (ky_dim, kz_dim) Ry Rz (a0, a1) of
           Inl e \<Rightarrow> False
         | Inr (msk, samples) \<Rightarrow>
             msk = reference_mask ky_dim kz_dim y1 y2 z1 z2 Ry Rz \<and>
             (\<forall>ky kz. 1 \<le> ky \<and> ky \<le> ky_dim \<and> 1 \<le> kz \<and> kz \<le> kz_dim \<longrightarrow>
                msk ! nat (ky - 1) ! nat (kz - 1) =
                  ((y1 \<le> ky \<and> ky \<le> y2 \<and> z1 \<le> kz \<and> kz \<le> z2) \<or>
                   (\<not> (y1 \<le> ky \<and> ky \<le> y2 \<and> z1 \<le> kz \<and> kz \<le> z2) \<and>
                    (ky - y1) mod Ry = 0 \<and> (kz - z1) mod Rz = 0)))"
proof -
  have "\<forall>ky kz. 1 \<le> ky \<and> ky \<le> ky_dim \<and> 1 \<le> kz \<and> kz \<le> kz_dim \<longrightarrow>
      reference_mask ky_dim kz_dim y1 y2 z1 z2 Ry Rz ! nat (ky - 1) ! nat (kz - 1) =
        ((y1 \<le> ky \<and> ky \<le> y2 \<and> z1 \<le> kz \<and> kz \<le> z2) \<or>
         (\<not> (y1 \<le> ky \<and> ky \<le> y2 \<and> z1 \<le> kz \<and> kz \<le> z2) \<and>
          (ky - y1) mod Ry = 0 \<and> (kz - z1) mod Rz = 0))"
    by (simp add: nth_reference_mask reference_cell_def Let_def)
  then show ?thesis
    by (simp add: grappa3D_pattern_valid [OF assms])
qed

theorem grappa3D_pattern_mask_witness:
  "valid_input (8, 8) 2 2 (4, 4) \<and> acs_bounds 8 4 = (2, 6) \<and>
   (case grappa3D_pattern (8, 8) 2 2 (4, 4) of
      Inl e \<Rightarrow> False
    | Inr (msk, samples) \<Rightarrow> msk = reference_mask 8 8 2 6 2 6 2 2)"
proof -
  have v: "valid_input (8, 8) 2 2 (4, 4)" by code_simp
  have b: "acs_bounds 8 4 = (2, 6)" by code_simp
  from grappa3D_pattern_mask [OF v b b] v b show ?thesis
    by (auto split: sum.splits)
qed

text \<open>
  C4: for grid_size = (8, 8), acs_size = (4, 4), Ry = 2 and Rz = 2 the claim expects the ACS
  rectangle \<open>[3..6] \<times> [3..6]\<close>. The code rounds 2.5 down to 2 and 5.5 up to 6, both to the
  even neighbour, so its ACS bounds are \<open>(2, 6)\<close> on each axis: the fully sampled block is
  \<open>[2..6] \<times> [2..6]\<close>, five cells wide for an ACS size of four, and the lattice outside is in
  phase with 2, not 3. The mask below is what the code returns; it differs from the mask of
  the claim.
\<close>

theorem grappa3D_pattern_8x8_acs4:
  "acs_bounds 8 4 = (2, 6) \<and>
   map_sum id fst (grappa3D_pattern (8, 8) 2 2 (4, 4)) =
     Inr [[False, False, False, False, False, False, False, False],
          [False, True,  True,  True,  True,  True,  False, True],
          [False, True,  True,  True,  True,  True,  False, False],
          [False, True,  True,  True,  True,  True,  False, True],
          [False, True,  True,  True,  True,  True,  False, False],
          [False, True,  True,  True,  True,  True,  False, True],
          [False, False, False, False, False, False, False, False],
          [False, True,  False, True,  False, True,  False, True]] \<and>
   map_sum id fst (grappa3D_pattern (8, 8) 2 2 (4, 4)) \<noteq> Inr (reference_mask 8 8 3 6 3 6 2 2)"
  by code_simp

subsection \<open>The sample list\<close>

text \<open>
  C2: for every valid input the sample list holds one entry per true cell of the mask (its
  length is the number of true cells), in row-major scan order (\<open>ky\<close> outer and ascending,
  \<open>kz\<close> inner and ascending), the entry of the 0-based index \<open>(ky, kz)\<close> being
  \<open>(ky - ky_dim div 2, kz - kz_dim div 2)\<close>.
\<close>

theorem grappa3D_pattern_samples:
  assumes "valid_input (ky_dim, kz_dim) Ry Rz acs_size"
  shows "case grappa3D_pattern (ky_dim, kz_dim) Ry Rz acs_size of
           Inl e \<Rightarrow> False
         | Inr (msk, samples) \<Rightarrow>
             samples = reference_samples ky_dim kz_dim msk \<and>
             length samples = count_nonzero msk \<and>
             sorted_wrt scan_before samples"
proof -
  have d: "0 \<le> ky_dim" "0 \<le> kz_dim" "Ry \<noteq> 0" "Rz \<noteq> 0"
    using assms by (auto simp add: valid_input_def Let_def split: prod.splits)
  have c: "case grappa3D_pattern (ky_dim, kz_dim) Ry Rz acs_size of
           Inl e \<Rightarrow> e = ZeroDivisionError \<and> (Ry = 0 \<or> Rz = 0)
         | Inr (msk, samples) \<Rightarrow> has_shape (nat ky_dim) (nat kz_dim) msk \<and>
             samples = reference_samples ky_dim kz_dim msk"
    using d(1,2) by (rule grappa3D_pattern_cases)
  show ?thesis
  proof (cases "grappa3D_pattern (ky_dim, kz_dim) Ry Rz acs_size")
    case (Inl e)
    then show ?thesis using c d by simp
  next
    case (Inr r)
    obtain msk samples where r: "r = (msk, samples)" by (cases r)
    have sh: "has_shape (nat ky_dim) (nat kz_dim) msk"
      and s: "samples = reference_samples ky_dim kz_dim msk"
      using c Inr r by simp_all
    have "length (reference_samples (int (nat ky_dim)) (int (nat kz_dim)) msk) = count_nonzero msk"
      using sh by (rule length_reference_samples)
    then show ?thesis using Inr r s d by (simp add: sorted_reference_samples)
  qed
qed

theorem grappa3D_pattern_samples_witness:
  "valid_input (8, 8) 2 2 (4, 4) \<and>
   (case grappa3D_pattern (8, 8) 2 2 (4, 4) of
      Inl e \<Rightarrow> False
    | Inr (msk, samples) \<Rightarrow>
        samples = reference_samples 8 8 msk \<and>
        length samples = count_nonzero msk \<and>
        sorted_wrt scan_before samples)"
proof -
  have v: "valid_input (8, 8) 2 2 (4, 4)" by code_simp
  from grappa3D_pattern_samples [OF v] v show ?thesis by simp
qed

text \<open>
  C9: for every valid input the mask has at least one true cell and the sample list is not
  empty, so the division of line 75 and the reductions of lines 79 and 80 do not raise.
\<close>

theorem grappa3D_pattern_nonempty:
  assumes "valid_input (ky_dim, kz_dim) Ry Rz (a0, a1)"
  shows "case grappa3D_pattern (ky_dim, kz_dim) Ry Rz (a0, a1) of
           Inl e \<Rightarrow> False
         | Inr (msk, samples) \<Rightarrow>
             0 < count_nonzero msk \<and> samples \<noteq> [] \<and>
             \<not> isl (AF msk) \<and> \<not> isl (samples_min samples) \<and> \<not> isl (samples_max samples)"
proof -
  obtain y1 y2 z1 z2 where b: "acs_bounds ky_dim a0 = (y1, y2)" "acs_bounds kz_dim a1 = (z1, z2)"
    by (metis surj_pair)
  note v = valid_inputD [OF assms b]
  let ?m = "reference_mask ky_dim kz_dim y1 y2 z1 z2 Ry Rz"
  let ?s = "reference_samples ky_dim kz_dim ?m"
  have r: "grappa3D_pattern (ky_dim, kz_dim) Ry Rz (a0, a1) = Inr (?m, ?s)"
    using assms b by (rule grappa3D_pattern_valid)
  have sh: "has_shape (nat ky_dim) (nat kz_dim) ?m"
    by (rule has_shape_reference_mask)
  have "reference_cell y1 y2 z1 z2 Ry Rz y1 z1"
    by (simp add: reference_cell_def)
  then have cell: "?m ! nat (y1 - 1) ! nat (z1 - 1)"
    using v by (simp add: nth_reference_mask)
  have i: "nat (y1 - 1) < length ?m" using v sh by (simp add: has_shape_length)
  then have j: "nat (z1 - 1) < length (?m ! nat (y1 - 1))"
    using v sh by (simp add: has_shape_nth has_shape_length)
  have pos: "0 < count_nonzero ?m"
    using i j cell by (rule count_nonzero_pos)
  have "length (reference_samples (int (nat ky_dim)) (int (nat kz_dim)) ?m) = count_nonzero ?m"
    using sh by (rule length_reference_samples)
  then have len: "length ?s = count_nonzero ?m" using v by simp
  then have ne: "?s \<noteq> []" using pos by auto
  then obtain p ps where ps: "?s = p # ps" by (cases ?s) auto
  have "\<not> isl (AF ?m)" using pos by (simp add: AF_def)
  moreover have "\<not> isl (samples_min ?s)" "\<not> isl (samples_max ?s)"
    unfolding ps by simp_all
  ultimately show ?thesis using r pos ne by simp
qed

theorem grappa3D_pattern_nonempty_witness:
  "valid_input (8, 8) 2 2 (4, 4) \<and>
   (case grappa3D_pattern (8, 8) 2 2 (4, 4) of
      Inl e \<Rightarrow> False
    | Inr (msk, samples) \<Rightarrow>
        0 < count_nonzero msk \<and> samples \<noteq> [] \<and>
        \<not> isl (AF msk) \<and> \<not> isl (samples_min samples) \<and> \<not> isl (samples_max samples))"
proof -
  have v: "valid_input (8, 8) 2 2 (4, 4)" by code_simp
  from grappa3D_pattern_nonempty [OF v] v show ?thesis by simp
qed

text \<open>
  C10: for every valid input every centred coordinate of the sample list is bounded,
  \<open>ky_centered\<close> in \<open>[- (ky_dim div 2), ky_dim - 1 - ky_dim div 2]\<close> and \<open>kz_centered\<close> in
  \<open>[- (kz_dim div 2), kz_dim - 1 - kz_dim div 2]\<close>; when both grid dimensions are at most
  \<open>2^15\<close>, every coordinate lies in the signed 16-bit range.
\<close>

theorem grappa3D_pattern_coordinates_bounded:
  assumes "valid_input (ky_dim, kz_dim) Ry Rz acs_size"
  shows "case grappa3D_pattern (ky_dim, kz_dim) Ry Rz acs_size of
           Inl e \<Rightarrow> False
         | Inr (msk, samples) \<Rightarrow>
             list_all (\<lambda>(ky_centered, kz_centered).
                 - (ky_dim div 2) \<le> ky_centered \<and> ky_centered \<le> ky_dim - 1 - ky_dim div 2 \<and>
                 - (kz_dim div 2) \<le> kz_centered \<and> kz_centered \<le> kz_dim - 1 - kz_dim div 2 \<and>
                 (ky_dim \<le> 2 ^ 15 \<and> kz_dim \<le> 2 ^ 15 \<longrightarrow>
                    - (2 ^ 15) \<le> ky_centered \<and> ky_centered \<le> 2 ^ 15 - 1 \<and>
                    - (2 ^ 15) \<le> kz_centered \<and> kz_centered \<le> 2 ^ 15 - 1))
               samples"
proof -
  have d: "0 < ky_dim" "0 < kz_dim" "Ry \<noteq> 0" "Rz \<noteq> 0"
    using assms by (auto simp add: valid_input_def Let_def split: prod.splits)
  have c: "case grappa3D_pattern (ky_dim, kz_dim) Ry Rz acs_size of
           Inl e \<Rightarrow> e = ZeroDivisionError \<and> (Ry = 0 \<or> Rz = 0)
         | Inr (msk, samples) \<Rightarrow> has_shape (nat ky_dim) (nat kz_dim) msk \<and>
             samples = reference_samples ky_dim kz_dim msk"
    using d(1,2) by (intro grappa3D_pattern_cases) auto
  show ?thesis
  proof (cases "grappa3D_pattern (ky_dim, kz_dim) Ry Rz acs_size")
    case (Inl e)
    then show ?thesis using c d by simp
  next
    case (Inr r)
    obtain msk samples where r: "r = (msk, samples)" by (cases r)
    have s: "samples = reference_samples ky_dim kz_dim msk"
      using c Inr r by simp
    have "- (ky_dim div 2) \<le> fst p \<and> fst p \<le> ky_dim - 1 - ky_dim div 2 \<and>
         - (kz_dim div 2) \<le> snd p \<and> snd p \<le> kz_dim - 1 - kz_dim div 2 \<and>
         (ky_dim \<le> 2 ^ 15 \<and> kz_dim \<le> 2 ^ 15 \<longrightarrow>
            - (2 ^ 15) \<le> fst p \<and> fst p \<le> 2 ^ 15 - 1 \<and>
            - (2 ^ 15) \<le> snd p \<and> snd p \<le> 2 ^ 15 - 1)" if "p \<in> set samples" for p
    proof -
      have b: "- (ky_dim div 2) \<le> fst p \<and> fst p \<le> ky_dim - 1 - ky_dim div 2 \<and>
         - (kz_dim div 2) \<le> snd p \<and> snd p \<le> kz_dim - 1 - kz_dim div 2"
        using that s by (intro set_reference_samples) simp
      have "0 \<le> ky_dim div 2" "0 \<le> kz_dim div 2" using d by simp_all
      moreover have "ky_dim div 2 \<le> 2 ^ 15" if "ky_dim \<le> 2 ^ 15" using that by simp
      moreover have "kz_dim div 2 \<le> 2 ^ 15" if "kz_dim \<le> 2 ^ 15" using that by simp
      ultimately show ?thesis using b by auto
    qed
    then show ?thesis using Inr r by (auto simp add: list_all_iff)
  qed
qed

theorem grappa3D_pattern_coordinates_bounded_witness:
  "valid_input (8, 8) 2 2 (4, 4) \<and>
   (case grappa3D_pattern (8, 8) 2 2 (4, 4) of
      Inl e \<Rightarrow> False
    | Inr (msk, samples) \<Rightarrow>
        list_all (\<lambda>(ky_centered, kz_centered).
            - (8 div 2) \<le> ky_centered \<and> ky_centered \<le> 8 - 1 - 8 div 2 \<and>
            - (8 div 2) \<le> kz_centered \<and> kz_centered \<le> 8 - 1 - 8 div 2 \<and>
            ((8::int) \<le> 2 ^ 15 \<and> (8::int) \<le> 2 ^ 15 \<longrightarrow>
               - (2 ^ 15) \<le> ky_centered \<and> ky_centered \<le> 2 ^ 15 - 1 \<and>
               - (2 ^ 15) \<le> kz_centered \<and> kz_centered \<le> 2 ^ 15 - 1))
          samples)"
proof -
  have v: "valid_input (8, 8) 2 2 (4, 4)" by code_simp
  from grappa3D_pattern_coordinates_bounded [OF v] v show ?thesis by blast
qed

subsection \<open>Failures of the generator\<close>

text \<open>
  C6, as stated, fails: the generator checks none of its preconditions. With an ACS of
  \<open>6 \<times> 6\<close> on a grid of \<open>4 \<times> 4\<close> the bounds are \<open>(0, 4)\<close>, the slice \<^verbatim>\<open>-1:4\<close> selects the last
  row and column only, every cell of the loop is skipped, and a mask with one sample is
  returned.
\<close>

theorem grappa3D_pattern_acs_larger_than_grid:
  "\<not> valid_input (4, 4) 2 2 (6, 6) \<and>
   grappa3D_pattern (4, 4) 2 2 (6, 6) =
     Inr ([[False, False, False, False],
           [False, False, False, False],
           [False, False, False, False],
           [False, False, False, True]], [(1, 1)])"
  by code_simp

text \<open>
  C6, amended: for every input satisfying the preconditions the generator does not fail. It
  has no InvalidParameter error and checks none of the preconditions, so an input that violates
  them is not rejected for that: with an ACS of \<open>2 \<times> 2\<close> on a grid of \<open>2 \<times> 2\<close> the lower
  bound of the ACS is 0, outside the grid, and a mask is returned all the same.
\<close>

theorem grappa3D_pattern_valid_returns:
  "(valid_input (ky_dim, kz_dim) Ry Rz acs_size \<longrightarrow>
      \<not> isl (grappa3D_pattern (ky_dim, kz_dim) Ry Rz acs_size)) \<and>
   acs_bounds 2 2 = (0, 2) \<and> \<not> valid_input (2, 2) 2 2 (2, 2) \<and>
   grappa3D_pattern (2, 2) 2 2 (2, 2) = Inr ([[False, False], [False, True]], [(0, 0)])"
proof -
  let ?r = "grappa3D_pattern (ky_dim, kz_dim) Ry Rz acs_size"
  have "\<not> isl ?r" if v: "valid_input (ky_dim, kz_dim) Ry Rz acs_size"
  proof -
    have d: "0 \<le> ky_dim" "0 \<le> kz_dim" "Ry \<noteq> 0" "Rz \<noteq> 0"
      using v by (auto simp add: valid_input_def Let_def split: prod.splits)
    have "case ?r of
           Inl e \<Rightarrow> e = ZeroDivisionError \<and> (Ry = 0 \<or> Rz = 0)
         | Inr (msk, samples) \<Rightarrow> has_shape (nat ky_dim) (nat kz_dim) msk \<and>
             samples = reference_samples ky_dim kz_dim msk"
      using d(1,2) by (rule grappa3D_pattern_cases)
    then show ?thesis using d(3,4) by (cases ?r) auto
  qed
  moreover have "acs_bounds 2 2 = (0, 2)"
    by code_simp
  moreover have "\<not> valid_input (2, 2) 2 2 (2, 2)"
    by code_simp
  moreover have
    "grappa3D_pattern (2, 2) 2 2 (2, 2) = Inr ([[False, False], [False, True]], [(0, 0)])"
    by code_simp
  ultimately show ?thesis by blast
qed

theorem grappa3D_pattern_valid_returns_witness:
  "valid_input (8, 8) 2 2 (4, 4) \<and> \<not> isl (grappa3D_pattern (8, 8) 2 2 (4, 4))"
proof -
  have v: "valid_input (8, 8) 2 2 (4, 4)" by code_simp
  from grappa3D_pattern_valid_returns [of 8 8 2 2 "(4, 4)"] v show ?thesis by blast
qed

subsection \<open>The encoding of the count and the file\<close>

text \<open>
  C3: for every count in \<open>[0, 2^32 - 1]\<close>, with \<open>(low16, high16) = split32to16 count\<close>,
  \<open>high16 * 2^16 + (low16 mod 2^16)\<close> is the count again; count 1313 gives low16 = 1313 and
  high16 = 0, and count 40000 gives low16 = -25536 and high16 = 0.
\<close>

theorem split32to16_roundtrip:
  "0 \<le> count \<Longrightarrow> count \<le> 2 ^ 32 - 1 \<Longrightarrow>
     (case split32to16 count of Inl e \<Rightarrow> False
      | Inr (low16, high16) \<Rightarrow> high16 * 2 ^ 16 + low16 mod 2 ^ 16 = count)
     \<and> split32to16 1313 = Inr (1313, 0) \<and> split32to16 40000 = Inr (- 25536, 0)"
proof -
  assume a: "0 \<le> count" "count \<le> 2 ^ 32 - 1"
  have h: "(count div 65536) mod 65536 = count div 65536"
    using a by simp
  show ?thesis
    by (simp add: split32to16_eq h low16_mod)
qed

theorem split32to16_roundtrip_witness:
  "(0::int) \<le> 40000 \<and> (40000::int) \<le> 2 ^ 32 - 1 \<and>
     (case split32to16 40000 of Inl e \<Rightarrow> False
      | Inr (low16, high16) \<Rightarrow> high16 * 2 ^ 16 + low16 mod 2 ^ 16 = 40000)"
  using split32to16_roundtrip [of 40000] by simp

text \<open>
  C7, as stated, fails: no path of \<open>split32to16\<close> raises. A count of \<open>2^32\<close> lies beyond the
  32-bit unsigned range, and the function returns the pair of count 0.
\<close>

theorem split32to16_beyond_range:
  "(2 ^ 32 - 1 :: int) < 4294967296 \<and> split32to16 4294967296 = Inr (0, 0)"
  by (simp add: split32to16_eq)

text \<open>
  C7, amended: the encoding never fails and there is no EncodingError. For every count,
  inside the range \<open>[0, 2^32 - 1]\<close> or beyond it, \<open>split32to16\<close> returns a signed low half and
  an unsigned high half that encode the count modulo \<open>2^32\<close>, and the export of any sample
  list returns.
\<close>

theorem split32to16_never_fails:
  "(case split32to16 count of
      Inl e \<Rightarrow> False
    | Inr (low16, high16) \<Rightarrow>
        - (2 ^ 15) \<le> low16 \<and> low16 < 2 ^ 15 \<and> 0 \<le> high16 \<and> high16 < 2 ^ 16 \<and>
        high16 * 2 ^ 16 + low16 mod 2 ^ 16 = count mod 2 ^ 32)
   \<and> \<not> isl (export_LUT samples)"
proof -
  have "count mod 2 ^ 32 = 65536 * (count div 65536 mod 65536) + count mod 65536"
    using zmod_zmult2_eq [of 65536 count 65536] by simp
  then have a: "(count div 65536 mod 65536) * 65536 + count mod 65536 = count mod 2 ^ 32"
    by simp
  obtain low16 high16 where s: "split32to16 (int (length samples)) = Inr (low16, high16)"
    by (simp add: split32to16_eq)
  have "\<not> isl (export_LUT samples)"
    by (simp add: export_LUT_eq [OF s])
  moreover have "- 32768 \<le> count mod 65536"
    using pos_mod_sign [of 65536 count] by linarith
  moreover have "count mod 65536 < 98304"
    using pos_mod_bound [of 65536 count] by linarith
  ultimately show ?thesis
    using a by (simp add: split32to16_eq low16_mod)
qed

theorem split32to16_never_fails_witness:
  "split32to16 4294967297 = Inr (1, 0) \<and> \<not> isl (export_LUT [(0, 0)])"
  using split32to16_never_fails [of 4294967297 "[(0, 0)]"]
  by (simp add: split32to16_eq)

text \<open>
  C5: for every sample list, the exported text is, in order, the line of low16, the line of
  high16, where \<open>(low16, high16)\<close> is \<open>split32to16\<close> of the number of samples, then for each
  sample in list order the line of its \<open>ky_centered\<close> and the line of its \<open>kz_centered\<close>,
  each one in decimal and ended by a newline: \<open>2 + 2 * count\<close> lines in all.
\<close>

theorem export_LUT_format:
  "case split32to16 (int (length samples)) of
     Inl e \<Rightarrow> False
   | Inr (low16, high16) \<Rightarrow>
       (case export_LUT samples of
          Inl e \<Rightarrow> False
        | Inr text \<Rightarrow>
            text = concat (map (\<lambda>v. str_int v @ [newline])
                     (low16 # high16 #
                      concat (map (\<lambda>(ky_centered, kz_centered). [ky_centered, kz_centered]) samples))) \<and>
            lines_of text = map str_int
                     (low16 # high16 #
                      concat (map (\<lambda>(ky_centered, kz_centered). [ky_centered, kz_centered]) samples)) \<and>
            length (lines_of text) = 2 + 2 * length samples)"
proof -
  obtain low16 high16 where s: "split32to16 (int (length samples)) = Inr (low16, high16)"
    by (simp add: split32to16_eq)
  let ?vs = "low16 # high16 # concat (map (\<lambda>(ky, kz). [ky, kz]) samples)"
  have e: "export_LUT samples = Inr (concat (map (\<lambda>v. str_int v @ [newline]) ?vs))"
    using s by (rule export_LUT_eq)
  have l: "lines_of (concat (map (\<lambda>v. str_int v @ [newline]) ?vs)) = map str_int ?vs"
    by (rule lines_of_values)
  have n: "length (map str_int ?vs) = 2 + 2 * length samples"
    by (simp add: length_pairs)
  show ?thesis
    unfolding s e using l n by simp
qed

theorem export_LUT_format_witness:
  "case export_LUT [(- 1, 0), (1, 0)] of
     Inl e \<Rightarrow> False
   | Inr text \<Rightarrow>
       lines_of text = map str_int [2, 0, - 1, 0, 1, 0] \<and> length (lines_of text) = 6"
proof -
  have s: "split32to16 (int (length [(- 1, 0), (1, 0) :: int \<times> int])) = Inr (2, 0)"
    by (simp add: split32to16_eq)
  show ?thesis
    using export_LUT_format [of "[(- 1, 0), (1, 0)]"] unfolding s
    by (simp split: sum.splits)
qed

end
